theory Spec2Isabelle
  imports Complex_Main
begin

section \<open>Home-loan affordability: the estimator, the income extractor and the query policy\<close>

text \<open>
  The development embeds \<^verbatim>\<open>src/app.py\<close>: \<^verbatim>\<open>estimate_loan_amount\<close>,
  \<^verbatim>\<open>parse_income_from_text\<close> and the module-level query handler.

  Numbers: Python floats are modelled as real numbers, so rounding, infinities, NaN and
  the float range are outside the model; Python ints are \<open>int\<close>.
  Exceptions: a computation that may raise has type \<open>'a outcome\<close>; a
  \<^verbatim>\<open>try\<close>/\<^verbatim>\<open>except Exception\<close> block is a case distinction on it.
\<close>

subsection \<open>Exceptions as values\<close>

datatype py_error = ZeroDivisionError | ValueError | TypeError

datatype 'a outcome = Return 'a | Raise py_error

text \<open>\<^verbatim>\<open>x ** k\<close> for a float base and an int exponent: a zero base with a negative
  exponent raises.\<close>

definition py_pow :: "real \<Rightarrow> int \<Rightarrow> real outcome" where
  "py_pow x k = (if x = 0 \<and> k < 0 then Raise ZeroDivisionError else Return (x powi k))"

text \<open>\<^verbatim>\<open>a / b\<close> on floats.\<close>

definition py_truediv :: "real \<Rightarrow> real \<Rightarrow> real outcome" where
  "py_truediv a b = (if b = 0 then Raise ZeroDivisionError else Return (a / b))"

subsection \<open>The affordability estimator\<close>

text \<open>The body of the \<^verbatim>\<open>try\<close> block of \<^verbatim>\<open>estimate_loan_amount\<close> (lines 65 to 72).
  The divisions by the constants \<^verbatim>\<open>100.0\<close> and \<^verbatim>\<open>12.0\<close> cannot raise.\<close>

definition estimate_try_block :: "real \<Rightarrow> real \<Rightarrow> int \<Rightarrow> int \<Rightarrow> real outcome" where
  "estimate_try_block monthly_income annual_rate_pct years repayment_pct =
     (let affordable_payment = monthly_income * (real_of_int repayment_pct / 100);
          r = (annual_rate_pct / 100) / 12;
          n = years * 12
      in if r \<le> 0 then Return (affordable_payment * real_of_int n)
         else (case py_pow (1 + r) (- n) of
                 Raise e \<Rightarrow> Raise e
               | Return pw \<Rightarrow>
                   (case py_truediv (affordable_payment * (1 - pw)) r of
                      Raise e \<Rightarrow> Raise e
                    | Return pv \<Rightarrow> Return (max pv 0))))"

text \<open>\<^verbatim>\<open>estimate_loan_amount\<close>: the block above under
  \<^verbatim>\<open>except Exception: return None\<close>.\<close>

definition estimate_loan_amount :: "real \<Rightarrow> real \<Rightarrow> int \<Rightarrow> int \<Rightarrow> real option outcome" where
  "estimate_loan_amount monthly_income annual_rate_pct years repayment_pct =
     (case estimate_try_block monthly_income annual_rate_pct years repayment_pct of
        Raise e \<Rightarrow> Return None
      | Return v \<Rightarrow> Return (Some v))"

text \<open>The quantities the specification names, as functions of the arguments.\<close>

definition affordable_payment_of :: "real \<Rightarrow> int \<Rightarrow> real" where
  "affordable_payment_of monthly_income repayment_pct =
     monthly_income * (real_of_int repayment_pct / 100)"

definition periodic_rate :: "real \<Rightarrow> real" where
  "periodic_rate annual_rate_pct = (annual_rate_pct / 100) / 12"

definition annuity_pv :: "real \<Rightarrow> real \<Rightarrow> int \<Rightarrow> real" where
  "annuity_pv payment r n = payment * (1 - (1 + r) powi (- n)) / r"

text \<open>The principal in closed form (proved below to be what \<open>estimate_loan_amount\<close>
  returns).\<close>

definition loan_principal :: "real \<Rightarrow> real \<Rightarrow> int \<Rightarrow> int \<Rightarrow> real" where
  "loan_principal monthly_income annual_rate_pct years repayment_pct =
     (if periodic_rate annual_rate_pct \<le> 0
      then affordable_payment_of monthly_income repayment_pct * real_of_int (years * 12)
      else max (annuity_pv (affordable_payment_of monthly_income repayment_pct)
                  (periodic_rate annual_rate_pct) (years * 12)) 0)"

subsection \<open>Characters and normalisation\<close>

text \<open>
  Text is a \<open>string\<close> of ASCII characters. The classes are those of Python's
  \<^verbatim>\<open>re\<close> on \<^verbatim>\<open>str\<close> patterns, restricted to ASCII:
  \<^verbatim>\<open>\d\<close> is 0 to 9; \<^verbatim>\<open>\s\<close> is the code points 9 to 13, 28 to 31 and 32;
  \<^verbatim>\<open>\w\<close> is a letter, a digit or the underscore. Characters beyond ASCII
  belong to no class here and are left alone by \<open>lower_char\<close>.
\<close>

definition is_digit :: "char \<Rightarrow> bool" where
  "is_digit c = (48 \<le> (of_char c :: nat) \<and> (of_char c :: nat) \<le> 57)"

definition is_space :: "char \<Rightarrow> bool" where
  "is_space c = ((9 \<le> (of_char c :: nat) \<and> (of_char c :: nat) \<le> 13)
               \<or> (28 \<le> (of_char c :: nat) \<and> (of_char c :: nat) \<le> 32))"

definition is_word :: "char \<Rightarrow> bool" where
  "is_word c = (is_digit c
              \<or> (97 \<le> (of_char c :: nat) \<and> (of_char c :: nat) \<le> 122)
              \<or> (65 \<le> (of_char c :: nat) \<and> (of_char c :: nat) \<le> 90)
              \<or> c = CHR ''_'')"

definition lower_char :: "char \<Rightarrow> char" where
  "lower_char c = (if 65 \<le> (of_char c :: nat) \<and> (of_char c :: nat) \<le> 90
                   then char_of ((of_char c :: nat) + 32) else c)"

text \<open>\<^verbatim>\<open>t = text.lower().replace(",", "")\<close>\<close>

definition normalise :: "string \<Rightarrow> string" where
  "normalise text = filter (\<lambda>c. c \<noteq> CHR '','') (map lower_char text)"

subsection \<open>Backtracking regular expressions\<close>

text \<open>
  The constructs the two patterns of \<^verbatim>\<open>parse_income_from_text\<close> use: a literal
  character, a class, a greedy bounded repetition of a class, the word boundary
  \<^verbatim>\<open>\b\<close>, sequence, alternative, a greedy optional part and a capturing group.
\<close>

datatype cclass = Digit | Space

fun in_class :: "cclass \<Rightarrow> char \<Rightarrow> bool" where
  "in_class Digit c = is_digit c"
| "in_class Space c = is_space c"

datatype regex =
    Lit char
  | Cls cclass
  | Rep cclass nat "nat option"
  | WordB
  | Seq regex regex
  | Alt regex regex
  | Opt regex
  | Group nat regex

text \<open>A matcher state: the character before the current position, the text still to be
  read, and the groups captured so far (the latest capture of a group first).\<close>

record mstate =
  prev :: "char option"
  rest :: string
  groups :: "(nat \<times> string) list"

definition consume :: "nat \<Rightarrow> mstate \<Rightarrow> mstate" where
  "consume j s = (case rev (take j (rest s)) of
                    [] \<Rightarrow> s
                  | c # _ \<Rightarrow> s\<lparr>prev := Some c, rest := drop j (rest s)\<rparr>)"

text \<open>\<^verbatim>\<open>\b\<close>: exactly one of the two neighbours is a word character (the ends of the
  text count as non-word).\<close>

definition at_boundary :: "char option \<Rightarrow> string \<Rightarrow> bool" where
  "at_boundary p r =
     ((case p of None \<Rightarrow> False | Some c \<Rightarrow> is_word c)
      \<noteq> (case r of [] \<Rightarrow> False | c # _ \<Rightarrow> is_word c))"

text \<open>All the ways a pattern matches at a state, in the order a backtracking matcher
  tries them: the head of the list is the match the matcher reports.\<close>

fun mt :: "regex \<Rightarrow> mstate \<Rightarrow> mstate list" where
  "mt (Lit c) s = (case rest s of
                     [] \<Rightarrow> []
                   | x # xs \<Rightarrow> if x = c then [s\<lparr>prev := Some x, rest := xs\<rparr>] else [])"
| "mt (Cls k) s = (case rest s of
                     [] \<Rightarrow> []
                   | x # xs \<Rightarrow> if in_class k x then [s\<lparr>prev := Some x, rest := xs\<rparr>] else [])"
| "mt (Rep k lo hi) s =
     (let avail = length (takeWhile (in_class k) (rest s));
          top = (case hi of None \<Rightarrow> avail | Some h \<Rightarrow> min avail h)
      in map (\<lambda>j. consume j s) (rev [lo ..< Suc top]))"
| "mt WordB s = (if at_boundary (prev s) (rest s) then [s] else [])"
| "mt (Seq a b) s = concat (map (mt b) (mt a s))"
| "mt (Alt a b) s = mt a s @ mt b s"
| "mt (Opt a) s = mt a s @ [s]"
| "mt (Group i a) s =
     map (\<lambda>s'. s'\<lparr>groups := (i, take (length (rest s) - length (rest s')) (rest s)) # groups s'\<rparr>)
         (mt a s)"

text \<open>\<^verbatim>\<open>re.search\<close>: the first match at the leftmost position that has one.\<close>

fun search_from :: "regex \<Rightarrow> char option \<Rightarrow> string \<Rightarrow> mstate option" where
  "search_from r p [] =
     (case mt r \<lparr>prev = p, rest = [], groups = []\<rparr> of [] \<Rightarrow> None | m # _ \<Rightarrow> Some m)"
| "search_from r p (c # cs) =
     (case mt r \<lparr>prev = p, rest = c # cs, groups = []\<rparr> of
        [] \<Rightarrow> search_from r (Some c) cs
      | m # _ \<Rightarrow> Some m)"

definition re_search :: "regex \<Rightarrow> string \<Rightarrow> mstate option" where
  "re_search r t = search_from r None t"

text \<open>\<^verbatim>\<open>m.group(i)\<close>: \<open>None\<close> when the group took no part in the match.\<close>

definition group :: "mstate \<Rightarrow> nat \<Rightarrow> string option" where
  "group m i = map_of (groups m) i"

text \<open>\<^verbatim>\<open>(r\s*)?(\d+(?:\.\d+)?)\s*k\b\<close>\<close>

definition k_pattern :: regex where
  "k_pattern =
     Seq (Opt (Group 1 (Seq (Lit CHR ''r'') (Rep Space 0 None))))
    (Seq (Group 2 (Seq (Rep Digit 1 None) (Opt (Seq (Lit CHR ''.'') (Rep Digit 1 None)))))
    (Seq (Rep Space 0 None)
    (Seq (Lit CHR ''k'') WordB)))"

text \<open>\<^verbatim>\<open>(r\s*)?(\d{4,7})(?:\b|\s)\<close>\<close>

definition plain_pattern :: regex where
  "plain_pattern =
     Seq (Opt (Group 1 (Seq (Lit CHR ''r'') (Rep Space 0 None))))
    (Seq (Group 2 (Rep Digit 4 (Some 7)))
         (Alt WordB (Cls Space)))"

subsection \<open>Decimal numerals\<close>

definition digit_value :: "char \<Rightarrow> nat" where
  "digit_value c = (of_char c :: nat) - 48"

definition decimal :: "string \<Rightarrow> nat" where
  "decimal ds = foldl (\<lambda>a c. 10 * a + digit_value c) 0 ds"

text \<open>\<^verbatim>\<open>float(s)\<close> on the strings a group of the two patterns can hold: digits with
  an optional fraction. Any other string is answered with \<open>ValueError\<close> here (Python
  also reads signs, exponents and surrounding blanks, which no group can contain).\<close>

definition py_float :: "string \<Rightarrow> real outcome" where
  "py_float s =
     (let ip = takeWhile is_digit s; rst = dropWhile is_digit s
      in case rst of
           [] \<Rightarrow> if ip = [] then Raise ValueError else Return (real (decimal ip))
         | c # fr \<Rightarrow>
             if c = CHR ''.'' \<and> list_all is_digit fr \<and> (ip \<noteq> [] \<or> fr \<noteq> [])
             then Return (real (decimal ip) + real (decimal fr) / 10 ^ length fr)
             else Raise ValueError)"

text \<open>\<^verbatim>\<open>float(m.group(i))\<close>: \<^verbatim>\<open>float(None)\<close> raises \<open>TypeError\<close>.\<close>

definition float_of_group :: "mstate \<Rightarrow> nat \<Rightarrow> real outcome" where
  "float_of_group m i = (case group m i of None \<Rightarrow> Raise TypeError | Some g \<Rightarrow> py_float g)"

subsection \<open>The income extractor\<close>

text \<open>\<^verbatim>\<open>parse_income_from_text\<close> (lines 32 to 52). The argument is \<open>None\<close> for
  Python's \<^verbatim>\<open>None\<close>. The first \<^verbatim>\<open>try\<close> block passes on an exception, so the
  plain pattern is tried next; the second returns \<^verbatim>\<open>None\<close>.\<close>

definition parse_income_from_text :: "string option \<Rightarrow> real option outcome" where
  "parse_income_from_text text =
     (case text of
        None \<Rightarrow> Return None
      | Some txt \<Rightarrow>
          if txt = [] then Return None
          else
            (let t = normalise txt;
                 k_match = re_search k_pattern t;
                 k_result = (case k_match of
                               None \<Rightarrow> None
                             | Some km \<Rightarrow>
                                 (case float_of_group km 2 of
                                    Raise e \<Rightarrow> None
                                  | Return v \<Rightarrow> Some (v * 1000)))
             in case k_result of
                  Some v \<Rightarrow> Return (Some v)
                | None \<Rightarrow>
                    (case re_search plain_pattern t of
                       None \<Rightarrow> Return None
                     | Some m \<Rightarrow>
                         (case float_of_group m 2 of
                            Raise e \<Rightarrow> Return None
                          | Return v \<Rightarrow> Return (Some v)))))"

subsection \<open>The query handler\<close>

text \<open>
  The module-level handler (lines 80 to 148). Its inputs are the sidebar settings, the
  remote client (\<open>None\<close> when no API key is configured) and the query text. The client
  is a function from the question to \<open>Inr\<close> the answer, or \<open>Inl\<close> the text of the
  exception the call raised (\<^verbatim>\<open>str(e)\<close>). The result is the trace of what the
  handler did: the remote calls and the Streamlit calls, in order. Streamlit calls are
  taken not to raise. The fixed texts are named rather than spelled out, and the
  formatted estimate report carries the numbers it prints.
\<close>

record settings =
  offline_mode :: bool
  default_rate :: real
  default_years :: int
  repayment_ratio :: int

type_synonym client = "string \<Rightarrow> string + string"

datatype message =
    Estimate_header
  | Estimate_report real real real int int
  | Offline_guidance
  | Answer_header
  | Answer string
  | Unavailable_note
  | Quota_no_estimate
  | Quota_no_income
  | Call_error string

datatype event =
    Remote_call string
  | St_success message
  | St_write message
  | St_info message
  | St_warning message
  | St_error message
  | Uncaught py_error

text \<open>\<^verbatim>\<open>needle in hay\<close> on strings.\<close>

fun starts_with :: "string \<Rightarrow> string \<Rightarrow> bool" where
  "starts_with [] hay = True"
| "starts_with (x # xs) [] = False"
| "starts_with (x # xs) (y # ys) = (x = y \<and> starts_with xs ys)"

fun py_in :: "string \<Rightarrow> string \<Rightarrow> bool" where
  "py_in needle [] = (needle = [])"
| "py_in needle (y # ys) = (starts_with needle (y # ys) \<or> py_in needle ys)"

text \<open>Line 121.\<close>

definition quota_err :: "string \<Rightarrow> bool" where
  "quota_err err_text =
     (py_in ''insufficient_quota'' err_text \<or> py_in ''Error code: 429'' err_text)"

text \<open>Lines 85 to 104: the events and the flag \<^verbatim>\<open>used_offline\<close>. The tests
  \<^verbatim>\<open>if income:\<close> and \<^verbatim>\<open>if est:\<close> are Python truthiness: \<^verbatim>\<open>None\<close> and zero
  are both false.\<close>

definition offline_attempt :: "settings \<Rightarrow> string \<Rightarrow> (event list \<times> bool) outcome" where
  "offline_attempt cfg user_input =
     (case parse_income_from_text (Some user_input) of
        Raise e \<Rightarrow> Raise e
      | Return income \<Rightarrow>
          (case (case income of
                   None \<Rightarrow> Return ([], False)
                 | Some i \<Rightarrow>
                     if i = 0 then Return ([], False)
                     else (case estimate_loan_amount i (default_rate cfg) (default_years cfg)
                                  (repayment_ratio cfg) of
                             Raise e \<Rightarrow> Raise e
                           | Return est \<Rightarrow>
                               (case est of
                                  None \<Rightarrow> Return ([], False)
                                | Some v \<Rightarrow>
                                    if v = 0 then Return ([], False)
                                    else Return
                                      ([St_success Estimate_header,
                                        St_write (Estimate_report v i (default_rate cfg)
                                          (default_years cfg) (repayment_ratio cfg))],
                                       True)))) of
             Raise e \<Rightarrow> Raise e
           | Return (evs, used_offline) \<Rightarrow>
               Return (if used_offline then (evs, used_offline)
                       else (evs @ [St_info Offline_guidance], used_offline))))"

text \<open>Lines 108 to 148: the remote call and its \<^verbatim>\<open>except\<close> handler.\<close>

definition remote_attempt :: "settings \<Rightarrow> client \<Rightarrow> string \<Rightarrow> event list" where
  "remote_attempt cfg ask user_input =
     Remote_call user_input #
     (case ask user_input of
        Inr content \<Rightarrow> [St_success Answer_header, St_write (Answer content)]
      | Inl err_text \<Rightarrow>
          if quota_err err_text then
            (case parse_income_from_text (Some user_input) of
               Raise e \<Rightarrow> [Uncaught e]
             | Return income \<Rightarrow>
                 (case income of
                    None \<Rightarrow> [St_error Quota_no_income]
                  | Some i \<Rightarrow>
                      if i = 0 then [St_error Quota_no_income]
                      else (case estimate_loan_amount i (default_rate cfg) (default_years cfg)
                                   (repayment_ratio cfg) of
                              Raise e \<Rightarrow> [Uncaught e]
                            | Return est \<Rightarrow>
                                (case est of
                                   None \<Rightarrow> [St_error Quota_no_estimate]
                                 | Some v \<Rightarrow>
                                     if v = 0 then [St_error Quota_no_estimate]
                                     else [St_warning Unavailable_note,
                                           St_success Estimate_header,
                                           St_write (Estimate_report v i (default_rate cfg)
                                             (default_years cfg) (repayment_ratio cfg))]))))
          else [St_error (Call_error err_text)])"

text \<open>Lines 80 to 148: \<^verbatim>\<open>if user_input:\<close>, then the offline block under
  \<^verbatim>\<open>offline_mode or client is None\<close>, then the remote block under
  \<^verbatim>\<open>not offline_mode and client is not None and not used_offline\<close>.\<close>

definition handle_query :: "settings \<Rightarrow> client option \<Rightarrow> string \<Rightarrow> event list" where
  "handle_query cfg client user_input =
     (if user_input = [] then []
      else (case (if offline_mode cfg \<or> client = None then offline_attempt cfg user_input
                  else Return ([], False)) of
              Raise e \<Rightarrow> [Uncaught e]
            | Return (evs, used_offline) \<Rightarrow>
                evs @ (case client of
                         None \<Rightarrow> []
                       | Some ask \<Rightarrow>
                           if offline_mode cfg then []
                           else if used_offline then []
                           else remote_attempt cfg ask user_input)))"

subsection \<open>The two searches in closed form\<close>

text \<open>
  What each pattern finds, written as direct functions on the text. They are proved
  below to agree with \<open>re_search\<close> on \<open>k_pattern\<close> and \<open>plain_pattern\<close>, and serve
  to reason about the searches.
\<close>

definition word_end :: "string \<Rightarrow> bool" where
  "word_end r = (case r of [] \<Rightarrow> True | c # _ \<Rightarrow> \<not> is_word c)"

fun first_from :: "(string \<Rightarrow> 'a option) \<Rightarrow> string \<Rightarrow> 'a option" where
  "first_from f [] = f []"
| "first_from f (c # cs) = (case f (c # cs) of Some g \<Rightarrow> Some g | None \<Rightarrow> first_from f cs)"

definition after_marker :: "(string \<Rightarrow> 'a option) \<Rightarrow> string \<Rightarrow> 'a option" where
  "after_marker f x =
     (case x of
        [] \<Rightarrow> f x
      | c # cs \<Rightarrow> if c = CHR ''r'' then f (dropWhile is_space cs) else f x)"

definition plain_core :: "string \<Rightarrow> string option" where
  "plain_core x =
     (let d = takeWhile is_digit x
      in if 4 \<le> length d \<and> length d \<le> 7 \<and> word_end (dropWhile is_digit x)
         then Some d else None)"

definition plain_find :: "string \<Rightarrow> string option" where
  "plain_find t = first_from (after_marker plain_core) t"

definition k_tail :: "string \<Rightarrow> bool" where
  "k_tail r = (case dropWhile is_space r of
                 [] \<Rightarrow> False
               | c # r' \<Rightarrow> c = CHR ''k'' \<and> word_end r')"

definition k_core :: "string \<Rightarrow> string option" where
  "k_core x =
     (let d1 = takeWhile is_digit x; r1 = dropWhile is_digit x
      in if d1 = [] then None
         else (case r1 of
                 [] \<Rightarrow> None
               | c # r2 \<Rightarrow>
                   if c = CHR ''.''
                   then (let d2 = takeWhile is_digit r2
                         in if d2 \<noteq> [] \<and> k_tail (dropWhile is_digit r2)
                            then Some (d1 @ CHR ''.'' # d2) else None)
                   else if k_tail r1 then Some d1 else None))"

definition k_find :: "string \<Rightarrow> string option" where
  "k_find t = first_from (after_marker k_core) t"

text \<open>The number a string of digits with an optional fraction denotes.\<close>

definition float_value :: "string \<Rightarrow> real" where
  "float_value g =
     (case dropWhile is_digit g of
        [] \<Rightarrow> real (decimal (takeWhile is_digit g))
      | c # fr \<Rightarrow> real (decimal (takeWhile is_digit g)) + real (decimal fr) / 10 ^ length fr)"

text \<open>The extractor in terms of the two closed forms (proved below to be what
  \<open>parse_income_from_text\<close> computes on a text that is not empty).\<close>

definition income_of :: "string \<Rightarrow> real option" where
  "income_of txt =
     (case k_find (normalise txt) of
        Some g \<Rightarrow> Some (float_value g * 1000)
      | None \<Rightarrow>
          (case plain_find (normalise txt) of
             Some d \<Rightarrow> Some (real (decimal d))
           | None \<Rightarrow> None))"

text \<open>A number as the shorthand pattern reads it: digits, then optionally a dot and
  more digits.\<close>

definition is_number :: "string \<Rightarrow> bool" where
  "is_number g =
     (takeWhile is_digit g \<noteq> []
      \<and> (case dropWhile is_digit g of
            [] \<Rightarrow> True
          | c # fr \<Rightarrow> c = CHR ''.'' \<and> fr \<noteq> [] \<and> list_all is_digit fr))"


text \<open>The matcher in continuation form: what a continuation \<open>h\<close> yields on the
  matches of \<open>r\<close>, in order. It is a device of the proofs below.\<close>

definition run :: "regex \<Rightarrow> (mstate \<Rightarrow> 'a list) \<Rightarrow> mstate \<Rightarrow> 'a list" where
  "run r h s = concat (map h (mt r s))"

definition fits :: "nat option \<Rightarrow> nat \<Rightarrow> bool" where
  "fits hi a = (case hi of None \<Rightarrow> True | Some t \<Rightarrow> a \<le> t)"

section \<open>The matcher: basic facts\<close>

subsection \<open>Character classes\<close>

lemma digit_is_word: "is_digit c \<Longrightarrow> is_word c"
  by (simp add: is_word_def)

lemma digit_not_space: "is_digit c \<Longrightarrow> \<not> is_space c"
  by (auto simp: is_digit_def is_space_def)

lemma space_not_word: "is_space c \<Longrightarrow> \<not> is_word c"
  by (auto simp: is_digit_def is_space_def is_word_def)

lemma marker_chars:
  "\<not> is_digit CHR ''r''" "\<not> is_space CHR ''r''"
  "\<not> is_digit CHR ''k''" "\<not> is_space CHR ''k''" "is_word CHR ''k''"
  "\<not> is_digit CHR ''.''" "\<not> is_space CHR ''.''"
  by (simp_all add: is_digit_def is_space_def is_word_def)

subsection \<open>Consuming a run of characters\<close>

lemma rest_consume: "rest (consume j s) = drop j (rest s)"
  by (cases "take j (rest s)" rule: rev_cases) (auto simp: consume_def)

lemma groups_consume: "groups (consume j s) = groups s"
  by (cases "take j (rest s)" rule: rev_cases) (auto simp: consume_def)

lemma prev_consume:
  "prev (consume j s) = (if take j (rest s) = [] then prev s else Some (last (take j (rest s))))"
  by (cases "take j (rest s)" rule: rev_cases) (auto simp: consume_def)

lemma drop_in_run:
  assumes "j < length (takeWhile P xs)"
  shows "\<exists>c cs. drop j xs = c # cs \<and> P c"
proof -
  have len: "j < length xs"
    using assms length_takeWhile_le [of P xs] by simp
  have "P (takeWhile P xs ! j)"
    using assms nth_mem set_takeWhileD by metis
  then have "P (xs ! j)" using assms by (simp add: takeWhile_nth)
  moreover have "drop j xs = xs ! j # drop (Suc j) xs"
    using len by (simp add: Cons_nth_drop_Suc)
  ultimately show ?thesis by blast
qed

lemma concat_map_upt_greedy:
  assumes "\<And>j. lo \<le> j \<Longrightarrow> j < a \<Longrightarrow> f j = []" "tp \<le> a"
  shows "concat (map f (rev [lo..<Suc tp])) = (if lo \<le> a \<and> tp = a then f a else [])"
proof (cases "lo \<le> a \<and> tp = a")
  case True
  then have "[lo..<Suc tp] = [lo..<a] @ [a]" by simp
  moreover have "concat (map f (rev [lo..<a])) = []" using assms(1) by auto
  ultimately show ?thesis using True by simp
next
  case False
  then have "\<forall>j\<in>set (rev [lo..<Suc tp]). f j = []"
    using assms by auto
  then show ?thesis using False by auto
qed

lemma rep_greedy:
  assumes "\<And>s' c cs. rest s' = c # cs \<Longrightarrow> in_class k c \<Longrightarrow> h s' = []"
  shows "concat (map h (mt (Rep k lo hi) s)) =
           (if lo \<le> length (takeWhile (in_class k) (rest s))
               \<and> fits hi (length (takeWhile (in_class k) (rest s)))
            then h (consume (length (takeWhile (in_class k) (rest s))) s) else [])"
proof -
  let ?a = "length (takeWhile (in_class k) (rest s))"
  let ?top = "case hi of None \<Rightarrow> ?a | Some t \<Rightarrow> min ?a t"
  have fail: "h (consume j s) = []" if lt: "j < ?a" for j
  proof -
    obtain c cs where "drop j (rest s) = c # cs" "in_class k c"
      using drop_in_run [OF lt] by blast
    then show ?thesis using assms [of "consume j s" c cs] by (simp add: rest_consume)
  qed
  have top: "?top \<le> ?a" by (cases hi) auto
  have eq: "(?top = ?a) = fits hi ?a" by (cases hi) (auto simp: fits_def)
  have "concat (map h (mt (Rep k lo hi) s)) = concat (map (\<lambda>j. h (consume j s)) (rev [lo..<Suc ?top]))"
    by (simp add: Let_def comp_def rev_map [symmetric] del: upt_Suc)
  also have "\<dots> = (if lo \<le> ?a \<and> ?top = ?a then h (consume ?a s) else [])"
    using fail top by (rule concat_map_upt_greedy [where f = "\<lambda>j. h (consume j s)"])
  finally show ?thesis using eq by simp
qed

subsection \<open>The matcher in continuation form\<close>

lemma run_Lit:
  "run (Lit c) h s = (case rest s of [] \<Rightarrow> [] | x # xs \<Rightarrow>
      if x = c then h (s\<lparr>prev := Some x, rest := xs\<rparr>) else [])"
  by (simp add: run_def split: list.splits)

lemma run_Cls:
  "run (Cls k) h s = (case rest s of [] \<Rightarrow> [] | x # xs \<Rightarrow>
      if in_class k x then h (s\<lparr>prev := Some x, rest := xs\<rparr>) else [])"
  by (simp add: run_def split: list.splits)

lemma run_WordB: "run WordB h s = (if at_boundary (prev s) (rest s) then h s else [])"
  by (simp add: run_def)

lemma concat_map_concat_map:
  "concat (map h (concat (map f l))) = concat (map (\<lambda>x. concat (map h (f x))) l)"
  by (induction l) auto

lemma run_Seq: "run (Seq a b) h s = run a (run b h) s"
proof -
  have "run b h = (\<lambda>x. concat (map h (mt b x)))"
    by (rule ext) (simp add: run_def)
  then show ?thesis by (simp add: run_def concat_map_concat_map)
qed

lemma run_Alt: "run (Alt a b) h s = run a h s @ run b h s"
  by (simp add: run_def)

lemma run_Opt: "run (Opt a) h s = run a h s @ h s"
  by (simp add: run_def)

lemma run_Group:
  "run (Group i a) h s =
     run a (\<lambda>s'. h (s'\<lparr>groups := (i, take (length (rest s) - length (rest s')) (rest s)) # groups s'\<rparr>)) s"
  by (simp add: run_def comp_def)

lemma run_Rep:
  assumes "\<And>s' c cs. rest s' = c # cs \<Longrightarrow> in_class k c \<Longrightarrow> h s' = []"
  shows "run (Rep k lo hi) h s =
           (if lo \<le> length (takeWhile (in_class k) (rest s))
               \<and> fits hi (length (takeWhile (in_class k) (rest s)))
            then h (consume (length (takeWhile (in_class k) (rest s))) s) else [])"
  unfolding run_def using assms by (rule rep_greedy)

lemma map_mt_run: "map g (mt r s) = run r (\<lambda>s'. [g s']) s"
  by (simp add: run_def)

lemma rest_consume_run:
  "rest (consume (length (takeWhile P (rest s))) s) = dropWhile P (rest s)"
  by (simp add: rest_consume dropWhile_eq_drop)

lemma take_run: "take (length (takeWhile P xs)) xs = takeWhile P xs"
  by (simp add: takeWhile_eq_take [symmetric])

lemma prev_consume_run:
  "prev (consume (length (takeWhile P (rest s))) s) =
     (if takeWhile P (rest s) = [] then prev s else Some (last (takeWhile P (rest s))))"
  by (simp add: prev_consume take_run)

lemma run_Seq_fun: "run (Seq a b) h = run a (run b h)"
  by (rule ext) (rule run_Seq)

lemma in_class_fun: "in_class Space = is_space" "in_class Digit = is_digit"
  by (rule ext, simp)+

subsection \<open>The shorthand pattern at one position\<close>

lemma k_end_groups:
  "run (Lit CHR ''k'') (run WordB (\<lambda>s'. [groups s'])) s =
     (case rest s of [] \<Rightarrow> [] | c # r \<Rightarrow> if c = CHR ''k'' \<and> word_end r then [groups s] else [])"
  by (auto simp: run_Lit run_WordB at_boundary_def word_end_def marker_chars split: list.splits)

lemma k_tail_groups:
  "run (Seq (Rep Space 0 None) (Seq (Lit CHR ''k'') WordB)) (\<lambda>s'. [groups s']) s =
     (if k_tail (rest s) then [groups s] else [])"
proof -
  let ?h = "run (Lit CHR ''k'') (run WordB (\<lambda>s'. [groups s']))"
  have fail: "?h s' = []" if "rest s' = c # cs" "in_class Space c" for s' c cs
    using that marker_chars by (auto simp: k_end_groups)
  have "run (Seq (Rep Space 0 None) (Seq (Lit CHR ''k'') WordB)) (\<lambda>s'. [groups s']) s
        = run (Rep Space 0 None) ?h s"
    by (simp add: run_Seq_fun)
  also have "\<dots> = (if 0 \<le> length (takeWhile (in_class Space) (rest s))
               \<and> fits None (length (takeWhile (in_class Space) (rest s)))
            then ?h (consume (length (takeWhile (in_class Space) (rest s))) s) else [])"
    by (rule run_Rep) (rule fail)
  also have "\<dots> = ?h (consume (length (takeWhile is_space (rest s))) s)"
    by (simp add: fits_def in_class_fun)
  also have "\<dots> = (if k_tail (rest s) then [groups s] else [])"
    by (simp add: k_end_groups rest_consume_run groups_consume k_tail_def
        split: list.splits del: dropWhile_eq_Nil_conv)
  finally show ?thesis .
qed

lemma k_tail_digit: "is_digit c \<Longrightarrow> \<not> k_tail (c # cs)"
  using marker_chars by (auto simp: k_tail_def digit_not_space)

lemma k_tail_dot: "\<not> k_tail (CHR ''.'' # cs)"
  using marker_chars by (auto simp: k_tail_def)

lemma length_split_run:
  "length (takeWhile P xs) + length (dropWhile P xs) = length xs"
proof -
  have "length (takeWhile P xs @ dropWhile P xs) = length xs" by simp
  then show ?thesis by (simp del: takeWhile_dropWhile_id)
qed

lemma length_minus_dropWhile:
  "length xs - length (dropWhile P xs) = length (takeWhile P xs)"
  using length_split_run [of P xs] by simp

lemma take_minus_dropWhile:
  "take (length xs - length (dropWhile P xs)) xs = takeWhile P xs"
  by (simp add: length_minus_dropWhile take_run)

lemma take_length_append: "take (length A) (A @ B) = A"
  by simp

lemma take_through_fraction:
  assumes "dropWhile P xs = c # r2"
  shows "take (length xs - length (dropWhile P r2)) xs = takeWhile P xs @ c # takeWhile P r2"
proof -
  let ?A = "takeWhile P xs @ c # takeWhile P r2"
  have "takeWhile P xs @ dropWhile P xs = xs" by simp
  then have "takeWhile P xs @ c # r2 = xs" using assms by simp
  moreover have "takeWhile P r2 @ dropWhile P r2 = r2" by simp
  ultimately have xs: "?A @ dropWhile P r2 = xs" by simp
  then have "length ?A + length (dropWhile P r2) = length xs"
    by (metis length_append)
  then have n: "length xs - length (dropWhile P r2) = length ?A" by simp
  have t: "take (length ?A) (?A @ dropWhile P r2) = ?A" by (rule take_length_append)
  show ?thesis by (metis t xs n)
qed

lemma k_number_groups:
  "run (Seq (Group 2 (Seq (Rep Digit 1 None) (Opt (Seq (Lit CHR ''.'') (Rep Digit 1 None)))))
            (Seq (Rep Space 0 None) (Seq (Lit CHR ''k'') WordB)))
       (\<lambda>s'. [groups s']) s =
     (case k_core (rest s) of None \<Rightarrow> [] | Some d \<Rightarrow> [(2, d) # groups s])"
proof -
  define x where "x = rest s"
  define h2 where "h2 = (\<lambda>s'::mstate. if k_tail (rest s')
       then [(2, take (length x - length (rest s')) x) # groups s'] else [])"
  let ?D = "Rep Digit 1 None"
  let ?F = "Seq (Lit CHR ''.'') ?D"
  have tail': "run (Rep Space 0 None) (run (Lit CHR ''k'') (run WordB (\<lambda>s'. [groups s']))) t
       = (if k_tail (rest t) then [groups t] else [])" for t :: mstate
    using k_tail_groups [of t] unfolding run_Seq run_Seq_fun .
  have h2_fail: "h2 s' = []" if "rest s' = c # cs" "in_class Digit c" for s' c cs
    using that by (simp add: h2_def k_tail_digit)
  have inner: "run ?D h2 s'' =
      (if takeWhile is_digit (rest s'') \<noteq> []
       then h2 (consume (length (takeWhile is_digit (rest s''))) s'') else [])" for s''
  proof -
    have "run ?D h2 s'' = (if 1 \<le> length (takeWhile (in_class Digit) (rest s''))
               \<and> fits None (length (takeWhile (in_class Digit) (rest s'')))
            then h2 (consume (length (takeWhile (in_class Digit) (rest s''))) s'') else [])"
      by (rule run_Rep) (rule h2_fail)
    then show ?thesis
      by (cases "takeWhile is_digit (rest s'')") (simp_all add: fits_def in_class_fun)
  qed
  have frac0: "run ?F h2 s1 = (case rest s1 of [] \<Rightarrow> [] | c # r2 \<Rightarrow>
       if c = CHR ''.'' then run ?D h2 (s1\<lparr>prev := Some c, rest := r2\<rparr>) else [])" for s1
    by (simp add: run_Seq run_Lit split: list.splits)
  have frac: "run ?F h2 s1 = (case rest s1 of [] \<Rightarrow> [] | c # r2 \<Rightarrow>
       if c = CHR ''.'' \<and> takeWhile is_digit r2 \<noteq> [] \<and> k_tail (dropWhile is_digit r2)
       then [(2, take (length x - length (dropWhile is_digit r2)) x) # groups s1] else [])" for s1
    unfolding frac0 inner
    by (simp add: h2_def rest_consume dropWhile_eq_drop [symmetric] groups_consume split: list.splits)
  have opt_at: "run (Opt ?F) h2 s1 = (case rest s1 of [] \<Rightarrow> [] | c # r2 \<Rightarrow>
       if c = CHR ''.'' \<and> takeWhile is_digit r2 \<noteq> [] \<and> k_tail (dropWhile is_digit r2)
       then [(2, take (length x - length (dropWhile is_digit r2)) x) # groups s1] else [])
       @ (if k_tail (rest s1)
          then [(2, take (length x - length (rest s1)) x) # groups s1] else [])" for s1
    unfolding run_Opt frac by (simp add: h2_def)
  have opt_fail: "run (Opt ?F) h2 s' = []" if "rest s' = c # cs" "in_class Digit c" for s' c cs
    using that marker_chars unfolding opt_at by (auto simp: k_tail_digit)
  have "run (Seq (Group 2 (Seq ?D (Opt ?F))) (Seq (Rep Space 0 None) (Seq (Lit CHR ''k'') WordB)))
       (\<lambda>s'. [groups s']) s = run ?D (run (Opt ?F) h2) s"
    unfolding run_Seq run_Seq_fun run_Group tail' by (simp add: h2_def x_def cong: if_cong)
  also have "\<dots> = (if 1 \<le> length (takeWhile (in_class Digit) (rest s))
               \<and> fits None (length (takeWhile (in_class Digit) (rest s)))
            then run (Opt ?F) h2 (consume (length (takeWhile (in_class Digit) (rest s))) s) else [])"
    by (rule run_Rep) (rule opt_fail)
  also have "\<dots> = (case k_core x of None \<Rightarrow> [] | Some d \<Rightarrow> [(2, d) # groups s])"
  proof (cases "takeWhile is_digit x = []")
    case True
    then show ?thesis by (simp add: k_core_def in_class_fun x_def [symmetric])
  next
    case False
    then have one: "1 \<le> length (takeWhile is_digit x)"
      by (cases "takeWhile is_digit x") simp_all
    show ?thesis
    proof (cases "dropWhile is_digit x")
      case Nil
      then show ?thesis using False one
        unfolding opt_at
        by (simp add: k_core_def in_class_fun x_def [symmetric] fits_def
            rest_consume dropWhile_eq_drop [symmetric] groups_consume k_tail_def del: dropWhile_eq_Nil_conv)
    next
      case (Cons c r2)
      show ?thesis
      proof (cases "c = CHR ''.''")
        case True
        then show ?thesis using False one Cons take_through_fraction [OF Cons]
          unfolding opt_at
          by (simp add: k_core_def in_class_fun x_def [symmetric] fits_def
              rest_consume dropWhile_eq_drop [symmetric] groups_consume k_tail_dot Let_def)
      next
        case ndot: False
        then show ?thesis using False one Cons take_minus_dropWhile [of x is_digit]
          unfolding opt_at
          by (simp add: k_core_def in_class_fun x_def [symmetric] fits_def
              rest_consume dropWhile_eq_drop [symmetric] groups_consume Let_def)
      qed
    qed
  qed
  finally show ?thesis by (simp add: x_def)
qed

subsection \<open>The optional currency marker\<close>

lemma run_Rep_at:
  assumes "\<And>j. lo \<le> j \<Longrightarrow> j < length (takeWhile (in_class k) (rest s)) \<Longrightarrow> h (consume j s) = []"
  shows "run (Rep k lo hi) h s =
           (if lo \<le> length (takeWhile (in_class k) (rest s))
               \<and> fits hi (length (takeWhile (in_class k) (rest s)))
            then h (consume (length (takeWhile (in_class k) (rest s))) s) else [])"
proof -
  let ?a = "length (takeWhile (in_class k) (rest s))"
  let ?top = "case hi of None \<Rightarrow> ?a | Some t \<Rightarrow> min ?a t"
  have top: "?top \<le> ?a" by (cases hi) auto
  have eq: "(?top = ?a) = fits hi ?a" by (cases hi) (auto simp: fits_def)
  have "run (Rep k lo hi) h s = concat (map (\<lambda>j. h (consume j s)) (rev [lo..<Suc ?top]))"
    by (simp add: run_def Let_def comp_def rev_map [symmetric] del: upt_Suc)
  also have "\<dots> = (if lo \<le> ?a \<and> ?top = ?a then h (consume ?a s) else [])"
    using assms top by (rule concat_map_upt_greedy [where f = "\<lambda>j. h (consume j s)"])
  finally show ?thesis using eq by simp
qed

lemma run_marker:
  assumes "\<And>t c cs. rest t = c # cs \<Longrightarrow> in_class Space c \<Longrightarrow> H t = []"
  shows "run (Opt (Group 1 (Seq (Lit CHR ''r'') (Rep Space 0 None)))) H s =
     (case rest s of
        [] \<Rightarrow> []
      | c # cs \<Rightarrow>
          if c = CHR ''r''
          then H ((consume (length (takeWhile is_space cs)) (s\<lparr>prev := Some c, rest := cs\<rparr>))
                     \<lparr>groups := (1, take (length (rest s) - length (dropWhile is_space cs)) (rest s))
                                 # groups s\<rparr>)
          else []) @ H s"
proof -
  define H' where "H' = (\<lambda>s'::mstate. H (s'\<lparr>groups := (1, take (length (rest s) - length (rest s')) (rest s)) # groups s'\<rparr>))"
  have fail: "H' t = []" if "rest t = c # cs" "in_class Space c" for t c cs
    unfolding H'_def by (rule assms [of _ c cs]) (use that in simp_all)
  have sp: "run (Rep Space 0 None) H' t =
       H' (consume (length (takeWhile is_space (rest t))) t)" for t
  proof -
    have "run (Rep Space 0 None) H' t =
      (if 0 \<le> length (takeWhile (in_class Space) (rest t))
               \<and> fits None (length (takeWhile (in_class Space) (rest t)))
            then H' (consume (length (takeWhile (in_class Space) (rest t))) t) else [])"
      by (rule run_Rep) (rule fail)
    then show ?thesis by (simp add: fits_def in_class_fun)
  qed
  have "run (Opt (Group 1 (Seq (Lit CHR ''r'') (Rep Space 0 None)))) H s
        = run (Lit CHR ''r'') (run (Rep Space 0 None) H') s @ H s"
    unfolding run_Opt run_Group run_Seq H'_def ..
  also have "run (Lit CHR ''r'') (run (Rep Space 0 None) H') s =
     (case rest s of
        [] \<Rightarrow> []
      | c # cs \<Rightarrow>
          if c = CHR ''r''
          then H' (consume (length (takeWhile is_space cs)) (s\<lparr>prev := Some c, rest := cs\<rparr>))
          else [])"
    unfolding run_Lit sp by (simp split: list.splits)
  finally show ?thesis
    by (simp add: H'_def rest_consume dropWhile_eq_drop [symmetric] groups_consume
        split: list.splits cong: if_cong)
qed

lemma k_core_space: "is_space c \<Longrightarrow> k_core (c # cs) = None"
  using digit_not_space [of c] by (auto simp: k_core_def)

lemma k_core_marker: "k_core (CHR ''r'' # cs) = None"
  using marker_chars by (simp add: k_core_def)

lemma k_pattern_groups:
  "map (\<lambda>m. group m 2) (mt k_pattern s) =
     (case after_marker k_core (rest s) of None \<Rightarrow> [] | Some d \<Rightarrow> [Some d])"
proof -
  define H where "H = (\<lambda>t::mstate. case k_core (rest t) of None \<Rightarrow> [] | Some d \<Rightarrow> [(2, d) # groups t])"
  have H: "run (Seq (Group 2 (Seq (Rep Digit 1 None) (Opt (Seq (Lit CHR ''.'') (Rep Digit 1 None)))))
            (Seq (Rep Space 0 None) (Seq (Lit CHR ''k'') WordB))) (\<lambda>s'. [groups s']) = H"
    unfolding H_def by (rule ext) (rule k_number_groups)
  have fail: "H t = []" if "rest t = c # cs" "in_class Space c" for t c cs
    using that by (simp add: H_def k_core_space)
  have "map groups (mt k_pattern s) = run k_pattern (\<lambda>s'. [groups s']) s"
    by (rule map_mt_run)
  also have "\<dots> = run (Opt (Group 1 (Seq (Lit CHR ''r'') (Rep Space 0 None)))) H s"
    unfolding k_pattern_def run_Seq [of "Opt _"] H ..
  also have "\<dots> = (case rest s of
        [] \<Rightarrow> []
      | c # cs \<Rightarrow>
          if c = CHR ''r''
          then H ((consume (length (takeWhile is_space cs)) (s\<lparr>prev := Some c, rest := cs\<rparr>))
                     \<lparr>groups := (1, take (length (rest s) - length (dropWhile is_space cs)) (rest s))
                                 # groups s\<rparr>)
          else []) @ H s"
    by (rule run_marker) (rule fail)
  finally have "map (\<lambda>g. map_of g 2) (map groups (mt k_pattern s)) =
      (case after_marker k_core (rest s) of None \<Rightarrow> [] | Some d \<Rightarrow> [Some d])"
    by (simp add: H_def after_marker_def rest_consume dropWhile_eq_drop [symmetric] k_core_marker
        split: list.splits option.splits)
  then show ?thesis by (simp add: group_def comp_def)
qed

subsection \<open>The plain pattern at one position\<close>

lemma plain_core_space: "is_space c \<Longrightarrow> plain_core (c # cs) = None"
  using digit_not_space [of c] by (auto simp: plain_core_def)

lemma plain_core_marker: "plain_core (CHR ''r'' # cs) = None"
  using marker_chars by (simp add: plain_core_def)

lemma last_run:
  assumes "takeWhile P xs \<noteq> []"
  shows "P (last (takeWhile P xs))"
proof -
  have "last (takeWhile P xs) \<in> set (takeWhile P xs)" using assms by (rule last_in_set)
  then show ?thesis by (rule set_takeWhileD [THEN conjunct2])
qed

lemma last_take_run:
  assumes "0 < j" "j \<le> length (takeWhile P xs)"
  shows "take j xs \<noteq> [] \<and> P (last (take j xs))"
proof -
  have "take j (takeWhile P xs) = take j (take (length (takeWhile P xs)) xs)"
    by (simp only: take_run)
  also have "\<dots> = take j xs" using assms(2) by (simp add: min_def)
  finally have eq: "take j xs = take j (takeWhile P xs)" by simp
  have ne: "take j (takeWhile P xs) \<noteq> []" using assms by auto
  then have "last (take j (takeWhile P xs)) \<in> set (take j (takeWhile P xs))"
    by (rule last_in_set)
  then have "last (take j (takeWhile P xs)) \<in> set (takeWhile P xs)"
    by (rule in_set_takeD)
  then have "P (last (take j (takeWhile P xs)))"
    by (rule set_takeWhileD [THEN conjunct2])
  then show ?thesis using ne by (simp only: eq) simp
qed

lemma plain_number_groups:
  "run (Seq (Group 2 (Rep Digit 4 (Some 7))) (Alt WordB (Cls Space))) (\<lambda>s'. [groups s']) s =
     (case plain_core (rest s) of
        None \<Rightarrow> []
      | Some d \<Rightarrow>
          replicate (Suc (case dropWhile is_digit (rest s) of
                            [] \<Rightarrow> 0 | c # cs \<Rightarrow> if is_space c then 1 else 0))
                    ((2, d) # groups s))"
proof -
  define x where "x = rest s"
  define a where "a = length (takeWhile is_digit x)"
  define hb where "hb = (\<lambda>s'::mstate.
      (if at_boundary (prev s') (rest s')
       then [(2, take (length x - length (rest s')) x) # groups s'] else [])
      @ (case rest s' of [] \<Rightarrow> [] | c # cs \<Rightarrow>
           if is_space c then [(2, take (length x - length (rest s')) x) # groups s'] else []))"
  have step: "run (Seq (Group 2 (Rep Digit 4 (Some 7))) (Alt WordB (Cls Space))) (\<lambda>s'. [groups s']) s
       = run (Rep Digit 4 (Some 7)) hb s"
    unfolding run_Seq run_Group run_Seq_fun
    by (simp add: run_Alt run_WordB run_Cls hb_def x_def in_class_fun cong: if_cong list.case_cong)
  have fail: "hb (consume j s) = []"
    if "4 \<le> j" "j < length (takeWhile (in_class Digit) (rest s))" for j
  proof -
    have lt: "j < length (takeWhile is_digit x)" using that by (simp add: in_class_fun x_def)
    obtain c cs where r: "drop j x = c # cs" "is_digit c"
      using drop_in_run [OF lt] by blast
    have p: "take j x \<noteq> [] \<and> is_digit (last (take j x))"
      using last_take_run [of j is_digit x] that lt by simp
    show ?thesis
      using r p
      by (simp add: hb_def rest_consume prev_consume at_boundary_def digit_is_word digit_not_space
          x_def [symmetric])
  qed
  have "run (Rep Digit 4 (Some 7)) hb s =
      (if 4 \<le> length (takeWhile (in_class Digit) (rest s))
               \<and> fits (Some 7) (length (takeWhile (in_class Digit) (rest s)))
            then hb (consume (length (takeWhile (in_class Digit) (rest s))) s) else [])"
    using fail by (rule run_Rep_at)
  then have main: "run (Rep Digit 4 (Some 7)) hb s =
      (if 4 \<le> a \<and> a \<le> 7 then hb (consume a s) else [])"
    by (simp add: fits_def in_class_fun a_def x_def)
  show ?thesis
  proof (cases "4 \<le> a \<and> a \<le> 7")
    case False
    then have "plain_core x = None" by (auto simp: plain_core_def a_def Let_def)
    then show ?thesis using False step main by (auto simp: x_def [symmetric])
  next
    case True
    then have ne: "takeWhile is_digit x \<noteq> []" by (auto simp: a_def)
    have pw: "prev (consume a s) = Some (last (takeWhile is_digit x))"
      using ne by (simp add: prev_consume a_def x_def [symmetric] take_run)
    have w: "is_word (last (takeWhile is_digit x))"
      using last_run [OF ne] by (rule digit_is_word)
    have rs: "rest (consume a s) = dropWhile is_digit x"
      by (simp add: rest_consume a_def x_def [symmetric] dropWhile_eq_drop [symmetric])
    have bd: "at_boundary (prev (consume a s)) (dropWhile is_digit x) = word_end (dropWhile is_digit x)"
      unfolding pw
      by (simp add: w at_boundary_def word_end_def split: list.splits del: dropWhile_eq_Nil_conv)
    show ?thesis
    proof (cases "word_end (dropWhile is_digit x)")
      case we: True
      then have pc: "plain_core x = Some (takeWhile is_digit x)"
        using True by (simp add: plain_core_def a_def Let_def)
      define n :: nat where "n = (case dropWhile is_digit x of [] \<Rightarrow> 0 | c # cs \<Rightarrow> if is_space c then 1 else 0)"
      have "hb (consume a s) = replicate (Suc n) ((2, takeWhile is_digit x) # groups s)"
        unfolding hb_def rs bd take_minus_dropWhile
        by (simp add: we groups_consume n_def split: list.splits
            del: dropWhile_eq_Nil_conv)
      then show ?thesis using True step main pc by (simp add: x_def [symmetric] n_def)
    next
      case nwe: False
      then have pc: "plain_core x = None"
        by (simp add: plain_core_def Let_def)
      have "hb (consume a s) = []"
        unfolding hb_def rs bd using nwe space_not_word
        by (auto simp: word_end_def split: list.splits simp del: dropWhile_eq_Nil_conv)
      then show ?thesis using True step main pc by (simp add: x_def [symmetric])
    qed
  qed
qed

lemma plain_pattern_groups:
  "\<exists>n. map (\<lambda>m. group m 2) (mt plain_pattern s) =
     (case after_marker plain_core (rest s) of None \<Rightarrow> [] | Some d \<Rightarrow> replicate (Suc n) (Some d))"
proof -
  define H where "H = (\<lambda>t::mstate. case plain_core (rest t) of
        None \<Rightarrow> []
      | Some d \<Rightarrow>
          replicate (Suc (case dropWhile is_digit (rest t) of
                            [] \<Rightarrow> 0 | c # cs \<Rightarrow> if is_space c then 1 else 0))
                    ((2, d) # groups t))"
  have H: "run (Seq (Group 2 (Rep Digit 4 (Some 7))) (Alt WordB (Cls Space))) (\<lambda>s'. [groups s']) = H"
    unfolding H_def by (rule ext) (rule plain_number_groups)
  have fail: "H t = []" if "rest t = c # cs" "in_class Space c" for t c cs
    using that by (simp add: H_def plain_core_space)
  have "map groups (mt plain_pattern s) = run plain_pattern (\<lambda>s'. [groups s']) s"
    by (rule map_mt_run)
  also have "\<dots> = run (Opt (Group 1 (Seq (Lit CHR ''r'') (Rep Space 0 None)))) H s"
    unfolding plain_pattern_def run_Seq [of "Opt _"] H ..
  also have "\<dots> = (case rest s of
        [] \<Rightarrow> []
      | c # cs \<Rightarrow>
          if c = CHR ''r''
          then H ((consume (length (takeWhile is_space cs)) (s\<lparr>prev := Some c, rest := cs\<rparr>))
                     \<lparr>groups := (1, take (length (rest s) - length (dropWhile is_space cs)) (rest s))
                                 # groups s\<rparr>)
          else []) @ H s"
    by (rule run_marker) (rule fail)
  finally have L: "map groups (mt plain_pattern s) = (case rest s of
        [] \<Rightarrow> []
      | c # cs \<Rightarrow>
          if c = CHR ''r''
          then H ((consume (length (takeWhile is_space cs)) (s\<lparr>prev := Some c, rest := cs\<rparr>))
                     \<lparr>groups := (1, take (length (rest s) - length (dropWhile is_space cs)) (rest s))
                                 # groups s\<rparr>)
          else []) @ H s" .
  have hm: "\<exists>n. map (\<lambda>g. map_of g 2) (H t) =
      (case plain_core (rest t) of None \<Rightarrow> [] | Some d \<Rightarrow> replicate (Suc n) (Some d))" for t
    by (cases "plain_core (rest t)") (auto simp: H_def)
  have "\<exists>n. map (\<lambda>g. map_of g 2) (map groups (mt plain_pattern s)) =
      (case after_marker plain_core (rest s) of None \<Rightarrow> [] | Some d \<Rightarrow> replicate (Suc n) (Some d))"
  proof (cases "rest s")
    case Nil
    then show ?thesis using hm [of s] by (simp add: L after_marker_def)
  next
    case (Cons c cs)
    show ?thesis
    proof (cases "c = CHR ''r''")
      case True
      let ?t = "(consume (length (takeWhile is_space cs)) (s\<lparr>prev := Some c, rest := cs\<rparr>))
                     \<lparr>groups := (1, take (length (rest s) - length (dropWhile is_space cs)) (rest s))
                                 # groups s\<rparr>"
      have rt: "rest ?t = dropWhile is_space cs"
        by (simp add: rest_consume dropWhile_eq_drop [symmetric])
      have "H s = []" using Cons True by (simp add: H_def plain_core_marker)
      then have "map groups (mt plain_pattern s) = H ?t"
        using Cons True by (simp add: L)
      then show ?thesis using hm [of ?t] Cons True unfolding rt
        by (simp add: after_marker_def)
    next
      case False
      then show ?thesis using hm [of s] Cons by (simp add: L after_marker_def)
    qed
  qed
  then show ?thesis by (simp add: group_def comp_def)
qed

subsection \<open>The two searches\<close>

lemma search_from_groups:
  assumes "\<And>s. \<exists>n. map (\<lambda>m. group m 2) (mt r s) =
     (case f (rest s) of None \<Rightarrow> [] | Some d \<Rightarrow> replicate (Suc n) (Some d))"
  shows "map_option (\<lambda>m. group m 2) (search_from r p x) = map_option Some (first_from f x)"
proof (induction x arbitrary: p)
  case Nil
  obtain n where "map (\<lambda>m. group m 2) (mt r \<lparr>prev = p, rest = [], groups = []\<rparr>) =
     (case f [] of None \<Rightarrow> [] | Some d \<Rightarrow> replicate (Suc n) (Some d))"
    using assms [of "\<lparr>prev = p, rest = [], groups = []\<rparr>"] by auto
  then show ?case
    by (cases "mt r \<lparr>prev = p, rest = [], groups = []\<rparr>"; cases "f []") auto
next
  case (Cons c cs)
  obtain n where "map (\<lambda>m. group m 2) (mt r \<lparr>prev = p, rest = c # cs, groups = []\<rparr>) =
     (case f (c # cs) of None \<Rightarrow> [] | Some d \<Rightarrow> replicate (Suc n) (Some d))"
    using assms [of "\<lparr>prev = p, rest = c # cs, groups = []\<rparr>"] by auto
  then show ?case using Cons.IH [of "Some c"]
    by (cases "mt r \<lparr>prev = p, rest = c # cs, groups = []\<rparr>"; cases "f (c # cs)") auto
qed

lemma k_search:
  "map_option (\<lambda>m. group m 2) (re_search k_pattern t) = map_option Some (k_find t)"
  unfolding re_search_def k_find_def
proof (rule search_from_groups)
  fix s show "\<exists>n. map (\<lambda>m. group m 2) (mt k_pattern s) =
     (case after_marker k_core (rest s) of None \<Rightarrow> [] | Some d \<Rightarrow> replicate (Suc n) (Some d))"
    by (rule exI [of _ 0]) (simp add: k_pattern_groups split: option.splits)
qed

lemma plain_search:
  "map_option (\<lambda>m. group m 2) (re_search plain_pattern t) = map_option Some (plain_find t)"
  unfolding re_search_def plain_find_def
  by (rule search_from_groups) (rule plain_pattern_groups)

subsection \<open>The extractor in closed form\<close>

lemma first_from_Some: "first_from f x = Some g \<Longrightarrow> \<exists>y. f y = Some g"
  by (induction x) (auto split: option.splits)

lemma after_marker_Some: "after_marker f x = Some g \<Longrightarrow> \<exists>y. f y = Some g"
  by (auto simp: after_marker_def split: list.splits if_splits)

lemma takeWhile_all: "list_all P xs \<Longrightarrow> takeWhile P xs = xs"
  by (induction xs) auto

lemma list_all_run: "list_all P (takeWhile P xs)"
  by (induction xs) auto

lemma py_float_digits:
  assumes "d \<noteq> []" "list_all is_digit d"
  shows "py_float d = Return (real (decimal d))" "float_value d = real (decimal d)"
proof -
  have t: "takeWhile is_digit d = d" using assms(2) by (rule takeWhile_all)
  have "takeWhile is_digit d @ dropWhile is_digit d = d" by simp
  then have dr: "dropWhile is_digit d = []" unfolding t by simp
  show "py_float d = Return (real (decimal d))" unfolding py_float_def t dr using assms(1) by simp
  show "float_value d = real (decimal d)" unfolding float_value_def t dr by simp
qed

lemma run_then_stop:
  assumes "list_all P d" "\<not> P c"
  shows "takeWhile P (d @ c # r) = d" "dropWhile P (d @ c # r) = c # r"
  using assms by (induction d) auto

lemma py_float_fraction:
  assumes "d1 \<noteq> []" "list_all is_digit d1" "list_all is_digit d2"
  shows "py_float (d1 @ CHR ''.'' # d2) = Return (float_value (d1 @ CHR ''.'' # d2))"
proof -
  have nd: "\<not> is_digit CHR ''.''" using marker_chars by simp
  show ?thesis
    unfolding py_float_def float_value_def run_then_stop [OF assms(2) nd]
    using assms by simp
qed

lemma k_core_float: "k_core x = Some g \<Longrightarrow> py_float g = Return (float_value g)"
proof -
  assume h: "k_core x = Some g"
  let ?d1 = "takeWhile is_digit x"
  have ne: "?d1 \<noteq> []" using h by (auto simp: k_core_def Let_def)
  have a1: "list_all is_digit ?d1" by (rule list_all_run)
  show ?thesis
  proof (cases "dropWhile is_digit x")
    case Nil
    then show ?thesis using h ne by (simp add: k_core_def Let_def del: dropWhile_eq_Nil_conv)
  next
    case (Cons c r2)
    show ?thesis
    proof (cases "c = CHR ''.''")
      case True
      then have "g = ?d1 @ CHR ''.'' # takeWhile is_digit r2"
        using h ne Cons by (simp add: k_core_def Let_def split: if_splits)
      then show ?thesis using py_float_fraction [OF ne a1 list_all_run [of is_digit r2]] by simp
    next
      case False
      then have "g = ?d1" using h ne Cons by (simp add: k_core_def Let_def split: if_splits)
      then show ?thesis using py_float_digits [OF ne a1] by simp
    qed
  qed
qed

lemma k_find_float: "k_find t = Some g \<Longrightarrow> py_float g = Return (float_value g)"
  unfolding k_find_def using first_from_Some after_marker_Some k_core_float by metis

lemma plain_core_float: "plain_core x = Some d \<Longrightarrow> py_float d = Return (real (decimal d))"
proof -
  assume h: "plain_core x = Some d"
  then have d: "d = takeWhile is_digit x" and len: "4 \<le> length d"
    by (auto simp: plain_core_def Let_def split: if_splits)
  have "d \<noteq> []" using len by auto
  moreover have "list_all is_digit d" unfolding d by (rule list_all_run)
  ultimately show ?thesis by (rule py_float_digits)
qed

lemma plain_find_float: "plain_find t = Some d \<Longrightarrow> py_float d = Return (real (decimal d))"
  unfolding plain_find_def using first_from_Some after_marker_Some plain_core_float by metis

lemma parse_income_closed_form:
  "parse_income_from_text (Some txt) = Return (if txt = [] then None else income_of txt)"
proof (cases "txt = []")
  case True
  then show ?thesis by (simp add: parse_income_from_text_def)
next
  case False
  let ?t = "normalise txt"
  have kres: "(case re_search k_pattern ?t of
                 None \<Rightarrow> None
               | Some km \<Rightarrow> (case float_of_group km 2 of Raise e \<Rightarrow> None | Return v \<Rightarrow> Some (v * 1000)))
        = (case k_find ?t of None \<Rightarrow> None | Some g \<Rightarrow> Some (float_value g * 1000))"
  proof (cases "k_find ?t")
    case None
    then have "re_search k_pattern ?t = None" using k_search [of ?t] by simp
    then show ?thesis using None by simp
  next
    case (Some g)
    then obtain m where m: "re_search k_pattern ?t = Some m" "group m 2 = Some g"
      using k_search [of ?t] by auto
    then show ?thesis using Some k_find_float [OF Some] by (simp add: float_of_group_def)
  qed
  have pres: "(case re_search plain_pattern ?t of
                 None \<Rightarrow> Return None
               | Some m \<Rightarrow> (case float_of_group m 2 of Raise e \<Rightarrow> Return None | Return v \<Rightarrow> Return (Some v)))
        = Return (case plain_find ?t of None \<Rightarrow> None | Some d \<Rightarrow> Some (real (decimal d)))"
  proof (cases "plain_find ?t")
    case None
    then have "re_search plain_pattern ?t = None" using plain_search [of ?t] by simp
    then show ?thesis using None by simp
  next
    case (Some d)
    then obtain m where m: "re_search plain_pattern ?t = Some m" "group m 2 = Some d"
      using plain_search [of ?t] by auto
    then show ?thesis using Some plain_find_float [OF Some] by (simp add: float_of_group_def)
  qed
  have "parse_income_from_text (Some txt) =
      (case (case re_search k_pattern ?t of
                 None \<Rightarrow> None
               | Some km \<Rightarrow> (case float_of_group km 2 of Raise e \<Rightarrow> None | Return v \<Rightarrow> Some (v * 1000))) of
         Some v \<Rightarrow> Return (Some v)
       | None \<Rightarrow>
           (case re_search plain_pattern ?t of
                 None \<Rightarrow> Return None
               | Some m \<Rightarrow> (case float_of_group m 2 of Raise e \<Rightarrow> Return None | Return v \<Rightarrow> Return (Some v))))"
    using False by (simp add: parse_income_from_text_def Let_def)
  also have "\<dots> = Return (income_of txt)"
    unfolding kres pres income_of_def by (simp split: option.splits)
  finally show ?thesis using False by simp
qed

subsection \<open>Texts of a given shape\<close>

text \<open>The definitions that evaluate the closed forms on a given text.\<close>

lemmas eval_defs = income_of_def normalise_def lower_char_def k_find_def plain_find_def
  after_marker_def k_core_def plain_core_def k_tail_def word_end_def is_digit_def is_space_def
  is_word_def float_value_def decimal_def digit_value_def is_number_def Let_def char_of_eq_iff























section \<open>Properties of the estimator\<close>

lemma estimate_try_block_closed_form:
  "estimate_try_block mi ar y rp =
     Return (if periodic_rate ar \<le> 0
             then affordable_payment_of mi rp * real_of_int (y * 12)
             else max (annuity_pv (affordable_payment_of mi rp) (periodic_rate ar) (y * 12)) 0)"
  by (simp add: estimate_try_block_def py_pow_def py_truediv_def affordable_payment_of_def
      periodic_rate_def annuity_pv_def Let_def)

lemma estimate_loan_amount_closed_form:
  "estimate_loan_amount mi ar y rp =
     Return (Some (if periodic_rate ar \<le> 0
             then affordable_payment_of mi rp * real_of_int (y * 12)
             else max (annuity_pv (affordable_payment_of mi rp) (periodic_rate ar) (y * 12)) 0))"
  by (simp add: estimate_loan_amount_def estimate_try_block_closed_form)









lemma estimate_positive_rate_nonneg:
  assumes "0 < periodic_rate ar" "estimate_loan_amount mi ar y rp = Return (Some v)"
  shows "0 \<le> v"
  using assms by (auto simp: estimate_loan_amount_closed_form)

subsection \<open>The handler in closed form\<close>

lemma estimate_is_principal:
  "estimate_loan_amount mi ar y rp = Return (Some (loan_principal mi ar y rp))"
  by (simp add: estimate_loan_amount_closed_form loan_principal_def)

lemma annuity_pv_pos:
  assumes "0 < r" "0 < n" "0 < p"
  shows "0 < annuity_pv p r n"
proof -
  have "(1 + r) powi (- n) < (1 + r) powi 0"
    by (rule power_int_strict_increasing) (use assms in auto)
  then have "0 < (1 - (1 + r) powi (- n)) / r" using assms(1) by simp
  with assms(3) have "0 < p * ((1 - (1 + r) powi (- n)) / r)" by (rule mult_pos_pos)
  then show ?thesis by (simp add: annuity_pv_def)
qed

lemma principal_pos:
  assumes "0 < periodic_rate ar" "0 < mi" "0 < rp" "0 < y"
  shows "loan_principal mi ar y rp = annuity_pv (affordable_payment_of mi rp) (periodic_rate ar) (y * 12)"
    and "0 < loan_principal mi ar y rp"
proof -
  have "0 < affordable_payment_of mi rp" using assms by (simp add: affordable_payment_of_def)
  then have "0 < annuity_pv (affordable_payment_of mi rp) (periodic_rate ar) (y * 12)"
    using assms by (intro annuity_pv_pos) auto
  then show "loan_principal mi ar y rp = annuity_pv (affordable_payment_of mi rp) (periodic_rate ar) (y * 12)"
    and "0 < loan_principal mi ar y rp"
    using assms(1) by (simp_all add: loan_principal_def)
qed

lemma parse_is_income:
  "q \<noteq> [] \<Longrightarrow> parse_income_from_text (Some q) = Return (income_of q)"
  by (simp add: parse_income_closed_form)

lemma offline_attempt_closed_form:
  assumes "q \<noteq> []"
  shows "offline_attempt cfg q =
     Return (case income_of q of
               None \<Rightarrow> ([St_info Offline_guidance], False)
             | Some i \<Rightarrow>
                 if i = 0 \<or> loan_principal i (default_rate cfg) (default_years cfg) (repayment_ratio cfg) = 0
                 then ([St_info Offline_guidance], False)
                 else ([St_success Estimate_header,
                        St_write (Estimate_report
                          (loan_principal i (default_rate cfg) (default_years cfg) (repayment_ratio cfg))
                          i (default_rate cfg) (default_years cfg) (repayment_ratio cfg))], True))"
  by (simp add: offline_attempt_def parse_is_income [OF assms] estimate_is_principal
      split: option.splits)

lemma remote_attempt_closed_form:
  assumes "q \<noteq> []"
  shows "remote_attempt cfg ask q =
     Remote_call q #
     (case ask q of
        Inr content \<Rightarrow> [St_success Answer_header, St_write (Answer content)]
      | Inl err_text \<Rightarrow>
          if quota_err err_text then
            (case income_of q of
               None \<Rightarrow> [St_error Quota_no_income]
             | Some i \<Rightarrow>
                 if i = 0 then [St_error Quota_no_income]
                 else if loan_principal i (default_rate cfg) (default_years cfg) (repayment_ratio cfg) = 0
                 then [St_error Quota_no_estimate]
                 else [St_warning Unavailable_note, St_success Estimate_header,
                       St_write (Estimate_report
                          (loan_principal i (default_rate cfg) (default_years cfg) (repayment_ratio cfg))
                          i (default_rate cfg) (default_years cfg) (repayment_ratio cfg))])
          else [St_error (Call_error err_text)])"
  by (simp add: remote_attempt_def parse_is_income [OF assms] estimate_is_principal
      split: option.splits sum.splits)

lemma handle_query_offline:
  assumes "offline_mode cfg \<or> client = None" "q \<noteq> []"
  shows "handle_query cfg client q =
     (case income_of q of
               None \<Rightarrow> [St_info Offline_guidance]
             | Some i \<Rightarrow>
                 if i = 0 \<or> loan_principal i (default_rate cfg) (default_years cfg) (repayment_ratio cfg) = 0
                 then [St_info Offline_guidance]
                 else [St_success Estimate_header,
                        St_write (Estimate_report
                          (loan_principal i (default_rate cfg) (default_years cfg) (repayment_ratio cfg))
                          i (default_rate cfg) (default_years cfg) (repayment_ratio cfg))])"
  using assms
  by (auto simp: handle_query_def offline_attempt_closed_form split: option.splits)

lemma handle_query_remote:
  assumes "\<not> offline_mode cfg" "client = Some ask" "q \<noteq> []"
  shows "handle_query cfg client q = remote_attempt cfg ask q"
  using assms by (simp add: handle_query_def)

section \<open>The claims about the estimator\<close>




text \<open>
  C7. The claim says a returned principal is never negative, in the branch \<open>r \<le> 0\<close> as
  in the branch \<open>r > 0\<close>. The branch \<open>r \<le> 0\<close> returns the product unclamped: at
  \<open>(-1000, 0, 10, 30)\<close> the function returns \<open>-36000\<close>.
\<close>

theorem estimate_loan_amount_negative_at_zero_rate:
  "periodic_rate 0 \<le> 0 \<and> estimate_loan_amount (- 1000) 0 10 30 = Return (Some (- 36000))"
  by (simp add: estimate_loan_amount_closed_form periodic_rate_def affordable_payment_of_def)




section \<open>The claims about the income extractor\<close>











text \<open>
  C5. The claim says a text whose digit runs are all longer than 7 digits yields
  \<open>None\<close>. The plain pattern has no boundary before its digits, so it matches the
  last 7 digits of a longer run: \<open>1234567890\<close> yields 4567890 and
  \<open>my phone is 1234567890123\<close> yields 7890123.
\<close>

theorem long_digit_run_is_matched_in_part:
  "parse_income_from_text (Some ''1234567890'') = Return (Some 4567890)
   \<and> parse_income_from_text (Some ''my phone is 1234567890123'') = Return (Some 7890123)"
  by (simp add: parse_income_closed_form eval_defs)




section \<open>The claims about the query handler\<close>

lemma quota_marks:
  "quota_err ''Error code: 429 - insufficient_quota''" "\<not> quota_err ''Connection error.''"
  by (simp_all add: quota_err_def)

text \<open>
  C2, as amended. When offline mode is on or no client is configured, and the query is
  not empty: if the extractor returns an income other than 0 and the estimator returns a
  principal other than 0 for it, the handler emits the offline estimate and nothing
  else; if the extractor returns \<open>None\<close> or 0, or the estimator returns \<open>None\<close> or 0,
  it emits the offline guidance and nothing else. In neither case is the remote client
  called.
\<close>

theorem offline_branch:
  assumes "offline_mode cfg \<or> client = None" and "user_input \<noteq> []"
  shows "(\<forall>i v. parse_income_from_text (Some user_input) = Return (Some i) \<and> i \<noteq> 0
             \<and> estimate_loan_amount i (default_rate cfg) (default_years cfg) (repayment_ratio cfg)
                 = Return (Some v) \<and> v \<noteq> 0 \<longrightarrow>
             handle_query cfg client user_input =
               [St_success Estimate_header,
                St_write (Estimate_report v i (default_rate cfg) (default_years cfg)
                           (repayment_ratio cfg))])
       \<and> (parse_income_from_text (Some user_input) = Return None
          \<or> parse_income_from_text (Some user_input) = Return (Some 0)
          \<or> (\<exists>i. parse_income_from_text (Some user_input) = Return (Some i)
                \<and> (estimate_loan_amount i (default_rate cfg) (default_years cfg)
                      (repayment_ratio cfg) = Return None
                   \<or> estimate_loan_amount i (default_rate cfg) (default_years cfg)
                      (repayment_ratio cfg) = Return (Some 0))) \<longrightarrow>
            handle_query cfg client user_input = [St_info Offline_guidance])
       \<and> (\<forall>q. Remote_call q \<notin> set (handle_query cfg client user_input))"
  using assms(2)
  by (auto simp: handle_query_offline [OF assms] parse_is_income estimate_is_principal
      split: option.splits)

theorem offline_branch_witness:
  "parse_income_from_text (Some ''I earn R15,000 per month'') = Return (Some 15000)
   \<and> estimate_loan_amount 15000 (47 / 4) 20 30 = Return (Some (annuity_pv 4500 (47 / 4800) 240))
   \<and> annuity_pv 4500 (47 / 4800) 240 \<noteq> 0
   \<and> handle_query \<lparr>offline_mode = True, default_rate = 47 / 4, default_years = 20,
                 repayment_ratio = 30\<rparr> (Some (\<lambda>q. Inr ''remote answer'')) ''I earn R15,000 per month''
     = [St_success Estimate_header,
        St_write (Estimate_report (annuity_pv 4500 (47 / 4800) 240) 15000 (47 / 4) 20 30)]
   \<and> parse_income_from_text (Some ''how much can I borrow?'') = Return None
   \<and> handle_query \<lparr>offline_mode = False, default_rate = 47 / 4, default_years = 20,
                 repayment_ratio = 30\<rparr> None ''how much can I borrow?''
     = [St_info Offline_guidance]"
proof -
  let ?on = "\<lparr>offline_mode = True, default_rate = 47 / 4, default_years = 20, repayment_ratio = 30\<rparr>"
  let ?off = "\<lparr>offline_mode = False, default_rate = 47 / 4, default_years = 20, repayment_ratio = 30\<rparr>"
  let ?c = "Some (\<lambda>q::string. (Inr ''remote answer'' :: string + string))"
  have p1: "parse_income_from_text (Some ''I earn R15,000 per month'') = Return (Some 15000)"
    by (simp add: parse_income_closed_form eval_defs)
  have r: "0 < periodic_rate (47 / 4)" by (simp add: periodic_rate_def)
  have v: "loan_principal 15000 (47 / 4) 20 30 = annuity_pv 4500 (47 / 4800) 240"
    "0 < loan_principal 15000 (47 / 4) 20 30"
    using principal_pos [OF r, of 15000 30 20]
    by (simp_all add: affordable_payment_of_def periodic_rate_def)
  have e1: "estimate_loan_amount 15000 (47 / 4) 20 30 = Return (Some (annuity_pv 4500 (47 / 4800) 240))"
    and nz: "annuity_pv 4500 (47 / 4800) 240 \<noteq> 0"
    using v by (simp_all add: estimate_is_principal)
  have p2: "parse_income_from_text (Some ''how much can I borrow?'') = Return None"
    by (simp add: parse_income_closed_form eval_defs)
  have "handle_query ?on ?c ''I earn R15,000 per month''
     = [St_success Estimate_header,
        St_write (Estimate_report (annuity_pv 4500 (47 / 4800) 240) 15000 (47 / 4) 20 30)]"
    using offline_branch [of ?on ?c "''I earn R15,000 per month''"] p1 e1 nz by simp
  moreover have "handle_query ?off None ''how much can I borrow?'' = [St_info Offline_guidance]"
    using offline_branch [of ?off None "''how much can I borrow?''"] p2 by simp
  ultimately show ?thesis using p1 e1 nz p2 by simp
qed

text \<open>
  C2 as stated fails at 0: on \<open>0000\<close> the extractor produces the value 0 and the
  estimator produces the value 0 for it, and the handler emits the guidance, not an
  estimate. On the empty query the handler emits nothing.
\<close>

theorem offline_branch_counterexample:
  "parse_income_from_text (Some ''0000'') = Return (Some 0)
   \<and> estimate_loan_amount 0 (47 / 4) 20 30 = Return (Some 0)
   \<and> handle_query \<lparr>offline_mode = True, default_rate = 47 / 4, default_years = 20,
                   repayment_ratio = 30\<rparr> None ''0000'' = [St_info Offline_guidance]
   \<and> handle_query \<lparr>offline_mode = True, default_rate = 47 / 4, default_years = 20,
                   repayment_ratio = 30\<rparr> None [] = []"
proof -
  have i: "income_of ''0000'' = Some 0" by (simp add: eval_defs)
  have "estimate_loan_amount 0 (47 / 4) 20 30 = Return (Some 0)"
    by (simp add: estimate_loan_amount_closed_form affordable_payment_of_def annuity_pv_def)
  moreover have "handle_query \<lparr>offline_mode = True, default_rate = 47 / 4, default_years = 20,
                   repayment_ratio = 30\<rparr> None [] = []"
    by (simp add: handle_query_def)
  ultimately show ?thesis using i
    by (simp add: parse_income_closed_form handle_query_offline)
qed



text \<open>
  C10. When the extractor returns 0, or the estimator returns 0 for the extracted
  income, the handler behaves as if there were no income or no estimate: in the offline
  branch it emits the guidance, and in the quota fallback it emits a quota error (the
  one about the missing income when the income is 0, the one about the estimate
  otherwise).
\<close>

theorem zero_is_treated_as_absent:
  assumes "parse_income_from_text (Some user_input) = Return (Some i)"
    and "i = 0 \<or> estimate_loan_amount i (default_rate cfg) (default_years cfg) (repayment_ratio cfg)
                   = Return (Some 0)"
  shows "(offline_mode cfg \<or> client = None \<longrightarrow>
            handle_query cfg client user_input = [St_info Offline_guidance])
       \<and> (\<not> offline_mode cfg \<and> client = Some ask \<and> ask user_input = Inl err_text
          \<and> quota_err err_text \<longrightarrow>
            handle_query cfg client user_input =
              [Remote_call user_input,
               St_error (if i = 0 then Quota_no_income else Quota_no_estimate)])"
proof -
  have ne: "user_input \<noteq> []"
    using assms(1) by (auto simp: parse_income_closed_form)
  have i: "income_of user_input = Some i"
    using assms(1) ne by (simp add: parse_income_closed_form)
  have z: "i = 0 \<or> loan_principal i (default_rate cfg) (default_years cfg) (repayment_ratio cfg) = 0"
    using assms(2) by (simp add: estimate_is_principal)
  show ?thesis
    using i z
    by (auto simp: handle_query_offline [OF _ ne] handle_query_remote [OF _ _ ne]
        remote_attempt_closed_form [OF ne])
qed

theorem zero_is_treated_as_absent_witness:
  "parse_income_from_text (Some ''0000'') = Return (Some 0)
   \<and> handle_query \<lparr>offline_mode = True, default_rate = 47 / 4, default_years = 20,
                   repayment_ratio = 30\<rparr> None ''0000'' = [St_info Offline_guidance]
   \<and> quota_err ''Error code: 429 - insufficient_quota''
   \<and> handle_query \<lparr>offline_mode = False, default_rate = 47 / 4, default_years = 20,
                   repayment_ratio = 30\<rparr>
        (Some (\<lambda>q. Inl ''Error code: 429 - insufficient_quota'')) ''0000''
      = [Remote_call ''0000'', St_error Quota_no_income]
   \<and> parse_income_from_text (Some ''R12k'') = Return (Some 12000)
   \<and> estimate_loan_amount 12000 (47 / 4) 20 0 = Return (Some 0)
   \<and> handle_query \<lparr>offline_mode = True, default_rate = 47 / 4, default_years = 20,
                   repayment_ratio = 0\<rparr> None ''R12k'' = [St_info Offline_guidance]
   \<and> handle_query \<lparr>offline_mode = False, default_rate = 47 / 4, default_years = 20,
                   repayment_ratio = 0\<rparr>
        (Some (\<lambda>q. Inl ''Error code: 429 - insufficient_quota'')) ''R12k''
      = [Remote_call ''R12k'', St_error Quota_no_estimate]"
proof -
  let ?on = "\<lparr>offline_mode = True, default_rate = 47 / 4, default_years = 20, repayment_ratio = 30\<rparr>"
  let ?off = "\<lparr>offline_mode = False, default_rate = 47 / 4, default_years = 20, repayment_ratio = 30\<rparr>"
  let ?zon = "\<lparr>offline_mode = True, default_rate = 47 / 4, default_years = 20, repayment_ratio = 0\<rparr>"
  let ?zoff = "\<lparr>offline_mode = False, default_rate = 47 / 4, default_years = 20, repayment_ratio = 0\<rparr>"
  let ?quota = "\<lambda>q::string. (Inl ''Error code: 429 - insufficient_quota'' :: string + string)"
  have p0: "parse_income_from_text (Some ''0000'') = Return (Some 0)"
    by (simp add: parse_income_closed_form eval_defs)
  have p1: "parse_income_from_text (Some ''R12k'') = Return (Some 12000)"
    by (simp add: parse_income_closed_form eval_defs)
  have e0: "estimate_loan_amount 12000 (47 / 4) 20 0 = Return (Some 0)"
    by (simp add: estimate_loan_amount_closed_form affordable_payment_of_def annuity_pv_def)
  have a: "handle_query ?on None ''0000'' = [St_info Offline_guidance]"
    using zero_is_treated_as_absent [OF p0, of ?on None] by simp
  have b: "handle_query ?off (Some ?quota) ''0000'' = [Remote_call ''0000'', St_error Quota_no_income]"
    using zero_is_treated_as_absent [OF p0, of ?off "Some ?quota" ?quota
        "''Error code: 429 - insufficient_quota''"] quota_marks(1) by simp
  have c: "handle_query ?zon None ''R12k'' = [St_info Offline_guidance]"
    using zero_is_treated_as_absent [OF p1, of ?zon None] e0 by simp
  have d: "handle_query ?zoff (Some ?quota) ''R12k'' = [Remote_call ''R12k'', St_error Quota_no_estimate]"
    using zero_is_treated_as_absent [OF p1, of ?zoff "Some ?quota" ?quota
        "''Error code: 429 - insufficient_quota''"] quota_marks(1) e0 by simp
  show ?thesis using p0 p1 e0 a b c d quota_marks(1) by simp
qed

end
